theory Spec2Isabelle
  imports Complex_Main
begin

section \<open>Numbers\<close>

text \<open>
  The module \<^verbatim>\<open>StorageRent.ts\<close> computes with numbers and with dates.
  Amounts and rates are values of the type \<^verbatim>\<open>number\<close>: binary64 floating-point numbers.
  A finite number is modelled by the rational it denotes (the two zeros are one value), next
  to the two infinities and NaN.  Every arithmetic operation computes the exact result and
  rounds it to the nearest binary64 number, a tie going to the even significand; a result
  that rounds to \<open>2 ^ 1024\<close> or beyond is an infinity.

  Day numbers, month counters and the change frequency are integers far below \<open>2 ^ 53\<close>,
  where binary64 arithmetic is exact; they are modelled as integers.
\<close>

datatype number = Finite rat | PosInfinity | NegInfinity | NaN

text \<open>The nearest integer, a tie going to the even one.\<close>

definition roundHalfEven :: "rat \<Rightarrow> int" where
  "roundHalfEven x =
     (if x - of_int \<lfloor>x\<rfloor> < 1 / 2 then \<lfloor>x\<rfloor>
      else if 1 / 2 < x - of_int \<lfloor>x\<rfloor> then \<lfloor>x\<rfloor> + 1
      else if even \<lfloor>x\<rfloor> then \<lfloor>x\<rfloor> else \<lfloor>x\<rfloor> + 1)"

text \<open>
  The binary exponent of a positive rational: \<open>2 ^ binade z \<le> z < 2 ^ (binade z + 1)\<close>.
\<close>

function binade :: "rat \<Rightarrow> int" where
  "binade z =
     (if z \<le> 0 then 0
      else if 2 \<le> z then binade (z / 2) + 1
      else if z < 1 then binade (z * 2) - 1
      else 0)"
  by pat_completeness auto
termination
proof (relation "measure (\<lambda>z. nat (2 * \<lceil>1 / z\<rceil> + \<lfloor>z\<rfloor>))")
  show "wf (measure (\<lambda>z. nat (2 * \<lceil>1 / z\<rceil> + \<lfloor>z\<rfloor>)))"
    by simp
next
  fix z :: rat
  assume "\<not> z \<le> 0" and big: "2 \<le> z"
  have "\<lceil>1 / z\<rceil> = 1"
    using big by (intro ceiling_unique) (simp_all add: field_simps)
  moreover have "\<lceil>1 / (z / 2)\<rceil> = 1"
    using big by (intro ceiling_unique) (simp_all add: field_simps)
  moreover have "\<lfloor>z / 2\<rfloor> \<le> \<lfloor>z - 1\<rfloor>"
    using big by (intro floor_mono) simp
  moreover have "1 \<le> \<lfloor>z\<rfloor>"
    using big by (simp add: le_floor_iff)
  ultimately have "nat (2 * \<lceil>1 / (z / 2)\<rceil> + \<lfloor>z / 2\<rfloor>) < nat (2 * \<lceil>1 / z\<rceil> + \<lfloor>z\<rfloor>)"
    by linarith
  then show "(z / 2, z) \<in> measure (\<lambda>z. nat (2 * \<lceil>1 / z\<rceil> + \<lfloor>z\<rfloor>))"
    by simp
next
  fix z :: rat
  assume pos: "\<not> z \<le> 0" and "\<not> 2 \<le> z" and small: "z < 1"
  have c2: "2 \<le> \<lceil>1 / z\<rceil>"
  proof -
    have "1 < 1 / z" using pos small by (simp add: field_simps)
    then have "1 < \<lceil>1 / z\<rceil>" by (simp add: less_ceiling_iff)
    then show ?thesis by simp
  qed
  have "1 / (z * 2) \<le> of_int \<lceil>1 / z\<rceil> / 2"
    using pos le_of_int_ceiling[of "1 / z"] by (simp add: field_simps)
  also have "\<dots> \<le> of_int (\<lceil>1 / z\<rceil> - 1)"
    using c2 by (simp add: field_simps)
  finally have "\<lceil>1 / (z * 2)\<rceil> \<le> \<lceil>1 / z\<rceil> - 1"
    by (rule ceiling_le)
  moreover have "\<lfloor>z\<rfloor> = 0"
    using pos small by (intro floor_unique) simp_all
  moreover have "\<lfloor>z * 2\<rfloor> \<le> 1"
    using small by (simp add: floor_le_iff)
  ultimately have "nat (2 * \<lceil>1 / (z * 2)\<rceil> + \<lfloor>z * 2\<rfloor>) < nat (2 * \<lceil>1 / z\<rceil> + \<lfloor>z\<rfloor>)"
    using c2 by linarith
  then show "(z * 2, z) \<in> measure (\<lambda>z. nat (2 * \<lceil>1 / z\<rceil> + \<lfloor>z\<rfloor>))"
    by simp
qed

declare binade.simps [simp del]

text \<open>
  The exponent of the unit in the last place: 52 below the binade, and never below that of
  the smallest normal number, \<open>2 ^ - 1022\<close> (the subnormal numbers share its spacing).
  \<open>roundPositive\<close> rounds a positive rational to the grid of its binade, \<open>roundDouble\<close>
  rounds any rational to a number.  A decimal literal of the source denotes
  \<open>roundDouble\<close> of its value.
\<close>

definition ulpExponent :: "rat \<Rightarrow> int" where
  "ulpExponent z = max (binade z) (- 1022) - 52"

definition roundPositive :: "rat \<Rightarrow> rat" where
  "roundPositive z = of_int (roundHalfEven (z / 2 powi ulpExponent z)) * 2 powi ulpExponent z"

definition roundDouble :: "rat \<Rightarrow> number" where
  "roundDouble z =
     (if z = 0 then Finite 0
      else if 2 powi 1024 \<le> roundPositive \<bar>z\<bar> then (if 0 < z then PosInfinity else NegInfinity)
      else Finite (sgn z * roundPositive \<bar>z\<bar>))"

text \<open>
  The operations of the language on numbers.  The module divides by the literals 30 and 100
  only; a zero divisor is taken as the positive zero.
\<close>

fun numSign :: "number \<Rightarrow> rat" where
  "numSign (Finite a) = sgn a"
| "numSign PosInfinity = 1"
| "numSign NegInfinity = - 1"
| "numSign NaN = 0"

definition signedInfinity :: "rat \<Rightarrow> number" where
  "signedInfinity s = (if 0 < s then PosInfinity else NegInfinity)"

fun numNeg :: "number \<Rightarrow> number" where
  "numNeg (Finite a) = Finite (- a)"
| "numNeg PosInfinity = NegInfinity"
| "numNeg NegInfinity = PosInfinity"
| "numNeg NaN = NaN"

fun numAdd :: "number \<Rightarrow> number \<Rightarrow> number" where
  "numAdd (Finite a) (Finite b) = roundDouble (a + b)"
| "numAdd NaN y = NaN"
| "numAdd x NaN = NaN"
| "numAdd PosInfinity NegInfinity = NaN"
| "numAdd NegInfinity PosInfinity = NaN"
| "numAdd PosInfinity y = PosInfinity"
| "numAdd NegInfinity y = NegInfinity"
| "numAdd x PosInfinity = PosInfinity"
| "numAdd x NegInfinity = NegInfinity"

definition numSub :: "number \<Rightarrow> number \<Rightarrow> number" where
  "numSub x y = numAdd x (numNeg y)"

fun numMul :: "number \<Rightarrow> number \<Rightarrow> number" where
  "numMul (Finite a) (Finite b) = roundDouble (a * b)"
| "numMul NaN y = NaN"
| "numMul x NaN = NaN"
| "numMul x y =
     (if numSign x * numSign y = 0 then NaN else signedInfinity (numSign x * numSign y))"

fun numDiv :: "number \<Rightarrow> number \<Rightarrow> number" where
  "numDiv (Finite a) (Finite b) =
     (if b = 0 then (if a = 0 then NaN else signedInfinity a) else roundDouble (a / b))"
| "numDiv NaN y = NaN"
| "numDiv x NaN = NaN"
| "numDiv (Finite a) y = Finite 0"
| "numDiv x (Finite b) = signedInfinity (numSign x * (if b < 0 then - 1 else 1))"
| "numDiv x y = NaN"

fun numLess :: "number \<Rightarrow> number \<Rightarrow> bool" where
  "numLess (Finite a) (Finite b) = (a < b)"
| "numLess NaN y = False"
| "numLess x NaN = False"
| "numLess PosInfinity y = False"
| "numLess x NegInfinity = False"
| "numLess x y = True"

definition numLessEq :: "number \<Rightarrow> number \<Rightarrow> bool" where
  "numLessEq x y = (numLess x y \<or> (x = y \<and> x \<noteq> NaN))"

text \<open>A number in a condition counts as true unless it is zero or NaN.\<close>

fun truthy :: "number \<Rightarrow> bool" where
  "truthy (Finite a) = (a \<noteq> 0)"
| "truthy NaN = False"
| "truthy x = True"

text \<open>\<^verbatim>\<open>Number(b)\<close> of a truth value, and the number of an integer.\<close>

definition numberOfBool :: "bool \<Rightarrow> number" where
  "numberOfBool b = Finite (if b then 1 else 0)"

definition numberOfInt :: "int \<Rightarrow> number" where
  "numberOfInt k = roundDouble (of_int k)"

text \<open>\<^verbatim>\<open>Math.round\<close>: the nearest integer, a tie going up; the result is exact.\<close>

fun mathRound :: "number \<Rightarrow> number" where
  "mathRound (Finite x) = Finite (of_int \<lfloor>x + 1 / 2\<rfloor>)"
| "mathRound x = x"

text \<open>
  The values the operations return: the infinities, NaN, and the finite rationals that
  rounding leaves unchanged.
\<close>

definition isNumber :: "number \<Rightarrow> bool" where
  "isNumber x = (case x of Finite v \<Rightarrow> roundDouble v = Finite v | _ \<Rightarrow> True)"

text \<open>
  \<^verbatim>\<open>a % b\<close> on integers: no value (NaN) for \<open>b = 0\<close>, otherwise the remainder of the
  truncating division, which has the sign of \<open>a\<close>.
\<close>

definition jsRemainder :: "int \<Rightarrow> int \<Rightarrow> int option" where
  "jsRemainder a b = (if b = 0 then None else Some (sgn a * (\<bar>a\<bar> mod \<bar>b\<bar>)))"

section \<open>Calendar dates\<close>

text \<open>
  A \<^verbatim>\<open>Date\<close> is modelled by what its three getters return: the full year, the zero-based
  month and the day of the month (time of day and time zone play no role in the module; the
  range limit of time values is not modelled).
\<close>

record Date =
  getFullYear :: int
  getMonth :: int
  getDate :: int

text \<open>The Gregorian calendar of the platform: leap years and the length of month \<open>m\<close> (0 to 11).\<close>

definition inLeapYear :: "int \<Rightarrow> bool" where
  "inLeapYear y = (y mod 4 = 0 \<and> (y mod 400 = 0 \<or> y mod 100 \<noteq> 0))"

definition monthLength :: "int \<Rightarrow> int \<Rightarrow> int" where
  "monthLength y m =
     (if m = 1 then (if inLeapYear y then 29 else 28)
      else if m = 3 \<or> m = 5 \<or> m = 8 \<or> m = 10 then 30
      else 31)"

text \<open>
  \<^verbatim>\<open>new Date(year, month, day)\<close> accepts fields out of range and carries them over: a year
  from 0 to 99 stands for 1900 + year, month 12 is January of the next year, day 0 is the
  last day of the month before, day 32 runs into the next month.  \<open>normDay\<close> carries the day
  for a month already in range, \<open>newDate\<close> is the constructor.
\<close>

definition twoDigitYear :: "int \<Rightarrow> int" where
  "twoDigitYear y = (if 0 \<le> y \<and> y \<le> 99 then 1900 + y else y)"

function normDay :: "int \<Rightarrow> int \<Rightarrow> int \<Rightarrow> Date" where
  "normDay y m d =
     (if d < 1 then
        (if m = 0 then normDay (y - 1) 11 (d + monthLength (y - 1) 11)
         else normDay y (m - 1) (d + monthLength y (m - 1)))
      else if d > monthLength y m then
        (if m = 11 then normDay (y + 1) 0 (d - monthLength y m)
         else normDay y (m + 1) (d - monthLength y m))
      else \<lparr>getFullYear = y, getMonth = m, getDate = d\<rparr>)"
  by pat_completeness auto
termination
  by (relation "measure (\<lambda>(y, m, d). if d < 1 then nat (40 - d) else nat d)")
     (auto simp: monthLength_def)

declare normDay.simps [simp del]

definition newDate :: "int \<Rightarrow> int \<Rightarrow> int \<Rightarrow> Date" where
  "newDate y m d = normDay (twoDigitYear y + m div 12) (m mod 12) d"

section \<open>The module\<close>

record MonthlyRentRecord =
  vacancy :: bool
  rentAmount :: number
  rentDueDate :: Date

type_synonym MonthlyRentRecords = "MonthlyRentRecord list"

record Contract =
  baseMonthlyRent :: number
  leaseStartDate :: Date
  windowStartDate :: Date
  windowEndDate :: Date
  dayOfMonthRentDue :: int
  rentRateChangeFrequency :: int
  rentChangeRate :: number

text \<open>Reading a property of \<^verbatim>\<open>undefined\<close> (an array read out of range) throws.\<close>

datatype error = TypeError

definition calculateNewMonthlyRent :: "number \<Rightarrow> number \<Rightarrow> number" where
  "calculateNewMonthlyRent base rate = numMul base (numAdd (Finite 1) rate)"

definition isLeapYear :: "int \<Rightarrow> bool" where
  "isLeapYear y = (jsRemainder y 4 = Some 0 \<and> jsRemainder y 100 \<noteq> Some 0)"

definition roundToTwoDecimalPlaces :: "number \<Rightarrow> number" where
  "roundToTwoDecimalPlaces v = numDiv (mathRound (numMul v (Finite 100))) (Finite 100)"

text \<open>The first parameter is the end of the window, the second its start.\<close>

definition calculateMonthDifference :: "Date \<Rightarrow> Date \<Rightarrow> int" where
  "calculateMonthDifference windowEnd windowStart =
     (if getFullYear windowStart > getFullYear windowEnd then - 1
      else if getFullYear windowStart = getFullYear windowEnd
        then getMonth windowEnd - getMonth windowStart
      else
        (let countMonthsInYear = (getFullYear windowEnd - getFullYear windowStart - 1) * 12
         in if getMonth windowStart > getMonth windowEnd
            then getMonth windowStart - getMonth windowEnd + countMonthsInYear
            else getMonth windowEnd - getMonth windowStart + countMonthsInYear))"

definition isVacant :: "number \<Rightarrow> bool" where
  "isVacant rate = numLess rate (Finite 0)"

definition getDaysInMonth :: "int \<Rightarrow> int \<Rightarrow> int" where
  "getDaysInMonth y m = getDate (newDate y (m + 1) 0)"

text \<open>
  The first assignment to \<^verbatim>\<open>daysInMonth\<close> (February, by \<open>isLeapYear\<close>) is overwritten by
  the second before it is read.
\<close>

definition correctRentDueDate :: "int \<Rightarrow> int \<Rightarrow> int \<Rightarrow> Date" where
  "correctRentDueDate y m dueDay =
     (let february = (if m = 1 \<and> dueDay > 28 then Some (if isLeapYear y then 29 else 28 :: int)
                      else None);
          daysInMonth = getDaysInMonth y m
      in if dueDay > daysInMonth then newDate y m daysInMonth else newDate y m dueDay)"

definition calculateFirstMonthRent ::
    "int \<Rightarrow> Date \<Rightarrow> number \<Rightarrow> number \<Rightarrow> MonthlyRentRecords" where
  "calculateFirstMonthRent dueDay leaseStart base rate =
     (if dueDay = getDate leaseStart then
        [\<lparr>vacancy = isVacant rate, rentAmount = base,
          rentDueDate = correctRentDueDate (getFullYear leaseStart) (getMonth leaseStart) dueDay\<rparr>]
      else
        (let isLeaseStartDateAfterDueDate = numberOfBool (dueDay < getDate leaseStart);
             calcRent = roundToTwoDecimalPlaces
               (numMul
                 (numMul base
                   (numSub isLeaseStartDateAfterDueDate
                     (numDiv (numberOfInt (dueDay - getDate leaseStart)) (Finite 30))))
                 (if truthy isLeaseStartDateAfterDueDate then Finite 1 else Finite (- 1)))
         in if truthy isLeaseStartDateAfterDueDate then
              [\<lparr>vacancy = isVacant rate, rentAmount = calcRent,
                rentDueDate =
                  correctRentDueDate (getFullYear leaseStart) (getMonth leaseStart) dueDay\<rparr>]
            else
              [\<lparr>vacancy = isVacant rate, rentAmount = calcRent, rentDueDate = leaseStart\<rparr>,
               \<lparr>vacancy = isVacant rate, rentAmount = base,
                rentDueDate =
                  correctRentDueDate (getFullYear leaseStart) (getMonth leaseStart) dueDay\<rparr>]))"

text \<open>
  The \<^verbatim>\<open>for\<close> loop of \<^verbatim>\<open>calculateMonthlyRent\<close>, with the counter \<open>month\<close> and the
  array built so far as its state.  Its condition reads the last record again on every
  round.  The lookback \<^verbatim>\<open>monthlyRentRecords[month].rentAmount\<close> throws when \<open>month\<close> is
  not an index of the array, and so does reading the last record of an empty one.

  \<open>dayDeficit\<close> and \<open>loopBound\<close> serve the termination proof only: every due date the
  loop appends lies in a year no earlier than a bound fixed by the contract, which caps the
  month difference the counter is compared with.
\<close>

definition dayDeficit :: "int \<Rightarrow> int" where
  "dayDeficit d = (if 1 \<le> d then 0 else 1 - d)"

definition loopBound :: "Contract \<Rightarrow> Date \<Rightarrow> int" where
  "loopBound c lastDue =
     12 * max 0 (getFullYear (windowEndDate c)
                 - (twoDigitYear (getFullYear (leaseStartDate c))
                    + min 0 ((getMonth lastDue + 1) div 12)
                    - dayDeficit (dayOfMonthRentDue c)))
     + \<bar>getMonth (windowEndDate c)\<bar> + 11"

function rentLoop :: "Contract \<Rightarrow> int \<Rightarrow> MonthlyRentRecords \<Rightarrow> error + MonthlyRentRecords" where
  "rentLoop c month recs =
     (if recs = [] then Inl TypeError
      else if month \<le> calculateMonthDifference (windowEndDate c) (rentDueDate (last recs)) then
        (let dueDate = correctRentDueDate (getFullYear (leaseStartDate c))
                         (getMonth (rentDueDate (last recs)) + 1) (dayOfMonthRentDue c);
             amount =
               (if jsRemainder month (rentRateChangeFrequency c) = Some 0 then
                  Inr (roundToTwoDecimalPlaces
                        (calculateNewMonthlyRent (rentAmount (last recs)) (rentChangeRate c)))
                else if 0 \<le> month \<and> month < int (length recs) then
                  Inr (roundToTwoDecimalPlaces (rentAmount (recs ! nat month)))
                else Inl TypeError)
         in case amount of
              Inl e \<Rightarrow> Inl e
            | Inr a \<Rightarrow>
                rentLoop c (month + 1)
                  (recs @ [\<lparr>vacancy = isVacant (rentChangeRate c), rentAmount = a,
                            rentDueDate = dueDate\<rparr>]))
      else Inr recs)"
  by pat_completeness auto
termination
proof (relation "measure (\<lambda>(c, month, recs).
          nat (max (calculateMonthDifference (windowEndDate c) (rentDueDate (last recs)))
                   (loopBound c (rentDueDate (last recs))) + 1 - month))")
  show "wf (measure (\<lambda>(c, month, recs).
          nat (max (calculateMonthDifference (windowEndDate c) (rentDueDate (last recs)))
                   (loopBound c (rentDueDate (last recs))) + 1 - month)))"
    by simp
next
  fix c :: Contract and month :: int and recs :: MonthlyRentRecords
    and dueDate :: Date and amount :: "error + number" and a :: number
  assume cond: "month \<le> calculateMonthDifference (windowEndDate c) (rentDueDate (last recs))"
    and due: "dueDate = correctRentDueDate (getFullYear (leaseStartDate c))
                         (getMonth (rentDueDate (last recs)) + 1) (dayOfMonthRentDue c)"
  have ml: "28 \<le> monthLength y m \<and> monthLength y m \<le> 31" for y m
    by (simp add: monthLength_def)
  have nb: "0 \<le> m \<Longrightarrow> m \<le> 11 \<Longrightarrow>
      0 \<le> getMonth (normDay y m d) \<and> getMonth (normDay y m d) \<le> 11
      \<and> 1 \<le> getDate (normDay y m d)
      \<and> y - dayDeficit d \<le> getFullYear (normDay y m d)" for y m d
  proof (induction y m d rule: normDay.induct)
    case (1 y m d)
    let ?P = "\<lambda>r. 0 \<le> getMonth r \<and> getMonth r \<le> 11 \<and> 1 \<le> getDate r
                 \<and> y - dayDeficit d \<le> getFullYear r"
    show ?case
    proof (cases "d < 1")
      case True
      show ?thesis
      proof (cases "m = 0")
        case m0: True
        have "y - dayDeficit d \<le> y - 1 - dayDeficit (d + monthLength (y - 1) 11)"
          using True ml[of "y - 1" 11] by (auto simp: dayDeficit_def)
        with "1.IH"(1)[OF True m0] have "?P (normDay (y - 1) 11 (d + monthLength (y - 1) 11))"
          by simp
        with True m0 show ?thesis
          by (subst (1 2 3 4) normDay.simps) simp
      next
        case mn: False
        have "y - dayDeficit d \<le> y - dayDeficit (d + monthLength y (m - 1))"
          using True ml[of y "m - 1"] by (auto simp: dayDeficit_def)
        with "1.IH"(2)[OF True mn] "1.prems" mn
        have "?P (normDay y (m - 1) (d + monthLength y (m - 1)))"
          by simp
        with True mn show ?thesis
          by (subst (1 2 3 4) normDay.simps) simp
      qed
    next
      case False
      show ?thesis
      proof (cases "d > monthLength y m")
        case big: True
        have dd: "dayDeficit d = 0" "dayDeficit (d - monthLength y m) = 0"
          using False big by (auto simp: dayDeficit_def)
        show ?thesis
        proof (cases "m = 11")
          case True
          with "1.IH"(3)[OF False big True] dd
          have "?P (normDay (y + 1) 0 (d - monthLength y m))"
            by simp
          with False big True show ?thesis
            by (subst (1 2 3 4) normDay.simps) simp
        next
          case mn: False
          with "1.IH"(4)[OF False big mn] "1.prems" dd
          have "?P (normDay y (m + 1) (d - monthLength y m))"
            by simp
          with False big mn show ?thesis
            by (subst (1 2 3 4) normDay.simps) simp
        qed
      next
        case ok: False
        with False "1.prems" show ?thesis
          by (subst (1 2 3 4) normDay.simps) (simp add: dayDeficit_def)
      qed
    qed
  qed
  have nd: "0 \<le> getMonth (newDate y m d) \<and> getMonth (newDate y m d) \<le> 11
      \<and> 1 \<le> getDate (newDate y m d)
      \<and> twoDigitYear y + m div 12 - dayDeficit d \<le> getFullYear (newDate y m d)" for y m d
    unfolding newDate_def by (rule nb) simp_all
  define ly where "ly = getFullYear (leaseStartDate c)"
  define lm where "lm = getMonth (rentDueDate (last recs)) + 1"
  define dd where "dd = dayOfMonthRentDue c"
  define dim where "dim = getDaysInMonth ly lm"
  have dim1: "1 \<le> dim"
    unfolding dim_def getDaysInMonth_def using nd[of ly "lm + 1" 0] by simp
  have deficit: "dayDeficit (if dd > dim then dim else dd) \<le> dayDeficit dd"
    using dim1 by (auto simp: dayDeficit_def)
  have dueDate_eq: "dueDate = newDate ly lm (if dd > dim then dim else dd)"
    unfolding due correctRentDueDate_def ly_def lm_def dd_def dim_def by (simp add: Let_def)
  have G: "0 \<le> getMonth dueDate" "getMonth dueDate \<le> 11"
    "twoDigitYear ly + lm div 12 - dayDeficit dd \<le> getFullYear dueDate"
    unfolding dueDate_eq using nd[of ly lm "if dd > dim then dim else dd"] deficit by auto
  define E where "E = windowEndDate c"
  define Y where "Y = twoDigitYear ly + min 0 (lm div 12) - dayDeficit dd"
  have Yle: "Y \<le> getFullYear dueDate"
    using G(3) unfolding Y_def by simp
  have diffG: "calculateMonthDifference E dueDate \<le> 12 * max 0 (getFullYear E - Y) + \<bar>getMonth E\<bar> + 11"
    using G(1,2) Yle unfolding calculateMonthDifference_def Let_def by auto
  have lbL: "loopBound c (rentDueDate (last recs)) = 12 * max 0 (getFullYear E - Y) + \<bar>getMonth E\<bar> + 11"
    unfolding loopBound_def E_def Y_def ly_def lm_def dd_def by simp
  have "(getMonth dueDate + 1) div 12 \<ge> 0"
    using G(1) by simp
  then have "Y \<le> twoDigitYear ly + min 0 ((getMonth dueDate + 1) div 12) - dayDeficit dd"
    unfolding Y_def by simp
  then have lbG: "loopBound c dueDate \<le> 12 * max 0 (getFullYear E - Y) + \<bar>getMonth E\<bar> + 11"
    unfolding loopBound_def E_def[symmetric] ly_def[symmetric] dd_def[symmetric] by simp
  from cond diffG lbG lbL
  have "nat (max (calculateMonthDifference E dueDate) (loopBound c dueDate) + 1 - (month + 1))
      < nat (max (calculateMonthDifference E (rentDueDate (last recs)))
                 (loopBound c (rentDueDate (last recs))) + 1 - month)"
    unfolding E_def by arith
  then show "((c, month + 1, recs @ [\<lparr>vacancy = isVacant (rentChangeRate c), rentAmount = a,
                            rentDueDate = dueDate\<rparr>]), c, month, recs)
       \<in> measure (\<lambda>(c, month, recs).
          nat (max (calculateMonthDifference (windowEndDate c) (rentDueDate (last recs)))
                   (loopBound c (rentDueDate (last recs))) + 1 - month))"
    unfolding E_def by simp
qed

declare rentLoop.simps [simp del]

definition calculateMonthlyRent :: "Contract \<Rightarrow> error + MonthlyRentRecords" where
  "calculateMonthlyRent c =
     (let firstMonthRent =
            calculateFirstMonthRent (dayOfMonthRentDue c) (leaseStartDate c)
              (baseMonthlyRent c) (rentChangeRate c);
          monthlyRentRecords = [] @ firstMonthRent
      in if monthlyRentRecords = [] then Inl TypeError
         else rentLoop c (getMonth (rentDueDate (last monthlyRentRecords))) monthlyRentRecords)"

text \<open>Calendar order on dates: by year, then month, then day.\<close>

definition dateLessEq :: "Date \<Rightarrow> Date \<Rightarrow> bool" where
  "dateLessEq a b =
     (getFullYear a < getFullYear b
      \<or> (getFullYear a = getFullYear b
         \<and> (getMonth a < getMonth b \<or> (getMonth a = getMonth b \<and> getDate a \<le> getDate b))))"

section \<open>Facts about rounding\<close>

lemma roundHalfEven_of_int: "roundHalfEven (of_int m) = m"
  by (simp add: roundHalfEven_def)

lemma roundHalfEven_error: "\<bar>of_int (roundHalfEven x) - x\<bar> \<le> 1 / 2"
proof -
  have "of_int \<lfloor>x\<rfloor> \<le> x" "x < of_int \<lfloor>x\<rfloor> + 1"
    by linarith+
  then show ?thesis
    unfolding roundHalfEven_def by (auto simp: abs_le_iff)
qed

lemma roundHalfEven_upper: "x \<le> of_int N \<Longrightarrow> roundHalfEven x \<le> N"
proof -
  assume a: "x \<le> of_int N"
  show ?thesis
  proof (cases "x = of_int N")
    case True then show ?thesis by (simp add: roundHalfEven_of_int)
  next
    case False
    with a have "x < of_int N" by simp
    then have "\<lfloor>x\<rfloor> < N" by (simp add: floor_less_iff)
    then show ?thesis unfolding roundHalfEven_def by auto
  qed
qed

lemma roundHalfEven_lower: "of_int N \<le> x \<Longrightarrow> N \<le> roundHalfEven x"
proof -
  assume "of_int N \<le> x"
  then have "N \<le> \<lfloor>x\<rfloor>" by (simp add: le_floor_iff)
  then show ?thesis unfolding roundHalfEven_def by auto
qed

lemma two_powi_pos: "0 < (2::rat) powi e"
  by (simp add: zero_less_power_int)

lemma two_powi_Suc: "(2::rat) powi (e + 1) = 2 * 2 powi e"
  by (simp add: power_int_add_1')

lemma two_powi_pred: "(2::rat) powi (e - 1) = 2 powi e / 2"
  using two_powi_Suc[of "e - 1"] by simp

lemma binade_bracket:
  "0 < z \<Longrightarrow> 2 powi binade z \<le> z \<and> z < 2 powi (binade z + 1)"
proof (induction z rule: binade.induct)
  case (1 z)
  show ?case
  proof (cases "2 \<le> z")
    case True
    with "1.prems" have b: "binade z = binade (z / 2) + 1"
      by (subst binade.simps) simp
    from "1.IH"(1) "1.prems" True
    have "2 powi binade (z / 2) \<le> z / 2 \<and> z / 2 < 2 powi (binade (z / 2) + 1)"
      by simp
    then show ?thesis
      unfolding b two_powi_Suc by simp
  next
    case False
    show ?thesis
    proof (cases "z < 1")
      case True
      with "1.prems" False have b: "binade z = binade (z * 2) - 1"
        by (subst binade.simps) simp
      from "1.IH"(2) "1.prems" False True
      have "2 powi binade (z * 2) \<le> z * 2 \<and> z * 2 < 2 powi (binade (z * 2) + 1)"
        by simp
      then show ?thesis
        unfolding b two_powi_pred by (simp add: two_powi_Suc)
    next
      case ge1: False
      with "1.prems" False have b: "binade z = 0"
        by (subst binade.simps) simp
      with False ge1 show ?thesis by simp
    qed
  qed
qed

lemma binade_unique:
  assumes "0 < z" "2 powi a \<le> z" "z < 2 powi (a + 1)"
  shows "binade z = a"
proof -
  from binade_bracket[OF assms(1)]
  have lo: "2 powi binade z \<le> z" and hi: "z < 2 powi (binade z + 1)"
    by simp_all
  have "(2::rat) powi a < 2 powi (binade z + 1)"
    using assms(2) hi by simp
  then have "a < binade z + 1"
    by (metis linorder_not_less one_le_numeral power_int_increasing)
  moreover have "(2::rat) powi binade z < 2 powi (a + 1)"
    using lo assms(3) by simp
  then have "binade z < a + 1"
    by (metis linorder_not_less one_le_numeral power_int_increasing)
  ultimately show ?thesis by simp
qed

lemma binade_less:
  assumes "0 < z" "z < 2 powi k"
  shows "binade z < k"
proof -
  from binade_bracket[OF assms(1)] assms(2) have "(2::rat) powi binade z < 2 powi k"
    by simp
  then show ?thesis
    by (metis linorder_not_less one_le_numeral power_int_increasing)
qed

lemma binade_two_powi: "binade (2 powi a) = a"
  by (rule binade_unique) (simp_all add: two_powi_pos two_powi_Suc)

lemma two_powi_add: "(2::rat) powi (a + b) = 2 powi a * 2 powi b"
  by (simp add: power_int_add)

lemma two_powi_nat: "0 \<le> a \<Longrightarrow> (2::rat) powi a = of_int (2 ^ nat a)"
  by (simp add: power_int_def)

lemma two_powi_mono: "a \<le> b \<Longrightarrow> (2::rat) powi a \<le> 2 powi b"
  by (simp add: power_int_increasing)

lemma ulpExponent_ge: "- 1074 \<le> ulpExponent z" "binade z - 52 \<le> ulpExponent z"
  by (simp_all add: ulpExponent_def)

lemma roundPositive_mantissa_le:
  assumes "0 < z"
  shows "roundHalfEven (z / 2 powi ulpExponent z) \<le> 2 ^ 53"
proof (rule roundHalfEven_upper)
  have "z < 2 powi (binade z + 1)"
    using binade_bracket[OF assms] by simp
  also have "\<dots> \<le> 2 powi (ulpExponent z + 53)"
    using ulpExponent_ge(2)[of z] by (intro two_powi_mono) simp
  also have "\<dots> = 2 powi ulpExponent z * of_int (2 ^ 53)"
    by (simp add: two_powi_add)
  finally show "z / 2 powi ulpExponent z \<le> of_int (2 ^ 53)"
    using two_powi_pos[of "ulpExponent z"] by (simp add: field_simps)
qed

lemma roundPositive_nonneg: "0 \<le> z \<Longrightarrow> 0 \<le> roundPositive z"
proof -
  assume "0 \<le> z"
  then have "of_int 0 \<le> z / 2 powi ulpExponent z"
    using two_powi_pos[of "ulpExponent z"] by simp
  then have "0 \<le> roundHalfEven (z / 2 powi ulpExponent z)"
    by (rule roundHalfEven_lower)
  then show ?thesis
    using two_powi_pos[of "ulpExponent z"] by (simp add: roundPositive_def)
qed

lemma roundPositive_half_ulp:
  "\<bar>roundPositive z - z\<bar> \<le> 2 powi ulpExponent z / 2"
proof -
  let ?q = "(2::rat) powi ulpExponent z"
  have q: "0 < ?q" by (rule two_powi_pos)
  have "roundPositive z - z = (of_int (roundHalfEven (z / ?q)) - z / ?q) * ?q"
    using q by (simp add: roundPositive_def field_simps)
  then have "\<bar>roundPositive z - z\<bar> = \<bar>of_int (roundHalfEven (z / ?q)) - z / ?q\<bar> * ?q"
    using q by (simp add: abs_mult)
  also have "\<dots> \<le> 1 / 2 * ?q"
    using roundHalfEven_error[of "z / ?q"] q by (intro mult_right_mono) simp_all
  finally show ?thesis by simp
qed

lemma on_finer_grid:
  assumes "g' \<le> g"
  shows "of_int m * (2::rat) powi g / 2 powi g' = of_int (m * 2 ^ nat (g - g'))"
proof -
  have "(2::rat) powi g = 2 powi (g - g') * 2 powi g'"
    using two_powi_add[of "g - g'" g'] by simp
  moreover have "(2::rat) powi (g - g') = of_int (2 ^ nat (g - g'))"
    using assms by (intro two_powi_nat) simp
  ultimately show ?thesis
    using two_powi_pos[of g'] by simp
qed

lemma roundPositive_fixed:
  assumes "0 < z" and pos: "0 < roundPositive z"
  shows "roundPositive (roundPositive z) = roundPositive z"
proof -
  define g where "g = ulpExponent z"
  define m where "m = roundHalfEven (z / 2 powi g)"
  define v where "v = roundPositive z"
  have v: "v = of_int m * 2 powi g"
    by (simp add: v_def m_def g_def roundPositive_def)
  have m53: "m \<le> 2 ^ 53"
    unfolding m_def g_def by (rule roundPositive_mantissa_le[OF assms(1)])
  have vpos: "0 < v" using pos by (simp add: v_def)
  have g_lo: "- 1074 \<le> g" unfolding g_def by (rule ulpExponent_ge)
  show ?thesis
  proof (cases "m = 2 ^ 53")
    case True
    then have v2: "v = 2 powi (g + 53)"
      by (simp add: v two_powi_add)
    then have "binade v = g + 53"
      by (simp add: binade_two_powi)
    then have u: "ulpExponent v = g + 1"
      using g_lo by (simp add: ulpExponent_def)
    have "v / 2 powi (g + 1) = of_int (2 ^ 52)"
      using two_powi_pos[of g] by (simp add: v2 two_powi_add)
    then have "roundPositive v = of_int (2 ^ 52) * 2 powi (g + 1)"
      by (simp add: roundPositive_def u roundHalfEven_of_int del: of_int_numeral of_int_power)
    also have "\<dots> = v"
      by (simp add: v2 two_powi_add)
    finally show ?thesis by (simp add: v_def)
  next
    case False
    with m53 have "m < 2 ^ 53" by simp
    then have "of_int m < (of_int (2 ^ 53) :: rat)"
      by (simp only: of_int_less_iff)
    then have "v < of_int (2 ^ 53) * 2 powi g"
      unfolding v using two_powi_pos[of g] by (intro mult_strict_right_mono) simp_all
    also have "\<dots> = 2 powi (g + 53)"
      by (simp add: two_powi_add)
    finally have "binade v < g + 53"
      using vpos by (intro binade_less)
    moreover have "- 1022 \<le> g + 52"
      using g_lo by simp
    ultimately have u: "ulpExponent v \<le> g"
      by (simp add: ulpExponent_def)
    have "of_int m * 2 powi g / 2 powi ulpExponent v
          = (of_int (m * 2 ^ nat (g - ulpExponent v)) :: rat)"
      by (rule on_finer_grid[OF u])
    then have grid: "v / 2 powi ulpExponent v = of_int (m * 2 ^ nat (g - ulpExponent v))"
      by (simp only: v)
    then have "roundPositive v = of_int (m * 2 ^ nat (g - ulpExponent v)) * 2 powi ulpExponent v"
      by (simp add: roundPositive_def roundHalfEven_of_int del: of_int_mult of_int_power)
    also have "\<dots> = v / 2 powi ulpExponent v * 2 powi ulpExponent v"
      using grid by simp
    also have "\<dots> = v"
      using two_powi_pos[of "ulpExponent v"] by simp
    finally show ?thesis by (simp add: v_def)
  qed
qed

lemma roundPositive_error:
  assumes "0 < z" "z \<le> 2 powi k" "- 1021 \<le> k"
  shows "\<bar>roundPositive z - z\<bar> \<le> 2 powi (k - 54)"
proof (cases "z = 2 powi k")
  case True
  have u: "ulpExponent z = k - 52"
    using assms(3) by (simp add: True ulpExponent_def binade_two_powi)
  have "z / 2 powi (k - 52) = of_int (2 ^ 52)"
    using two_powi_add[of "k - 52" 52] two_powi_pos[of "k - 52"] by (simp add: True)
  then have "roundPositive z = of_int (2 ^ 52) * 2 powi (k - 52)"
    by (simp add: roundPositive_def u roundHalfEven_of_int del: of_int_numeral of_int_power)
  also have "\<dots> = z"
    using two_powi_add[of "k - 52" 52] by (simp add: True)
  finally show ?thesis
    using two_powi_pos[of "k - 54"] by simp
next
  case False
  with assms have "z < 2 powi k" by simp
  then have "binade z < k"
    using assms(1) by (intro binade_less)
  then have "ulpExponent z \<le> k - 53"
    using assms(3) by (simp add: ulpExponent_def)
  then have "(2::rat) powi ulpExponent z \<le> 2 powi (k - 53)"
    by (rule two_powi_mono)
  also have "\<dots> = 2 * 2 powi (k - 54)"
    using two_powi_Suc[of "k - 54"] by simp
  finally show ?thesis
    using roundPositive_half_ulp[of z] by simp
qed

lemma roundDouble_minus: "roundDouble (- z) = numNeg (roundDouble z)"
  by (simp add: roundDouble_def sgn_if)

lemma roundDouble_fixed:
  assumes "roundDouble z = Finite v"
  shows "roundDouble v = Finite v"
proof (cases "z = 0")
  case True
  with assms show ?thesis by (simp add: roundDouble_def)
next
  case False
  define p where "p = roundPositive \<bar>z\<bar>"
  from assms False have small: "p < 2 powi 1024" and v: "v = sgn z * p"
    by (auto simp: roundDouble_def p_def split: if_splits)
  have p0: "0 \<le> p"
    unfolding p_def by (rule roundPositive_nonneg) simp
  show ?thesis
  proof (cases "p = 0")
    case True
    then show ?thesis by (simp add: v roundDouble_def)
  next
    case pn: False
    with p0 have pp: "0 < p" by simp
    from False have "0 < \<bar>z\<bar>" by simp
    then have same: "roundPositive p = p"
      unfolding p_def using pp[unfolded p_def] by (rule roundPositive_fixed)
    have av: "\<bar>v\<bar> = p" and sv: "sgn v = sgn z" and vn: "v \<noteq> 0"
      using pp False by (auto simp: v abs_mult sgn_mult sgn_if)
    have "roundDouble v = Finite (sgn v * roundPositive \<bar>v\<bar>)"
      using small vn unfolding roundDouble_def[of v] av same by simp
    also have "sgn v * roundPositive \<bar>v\<bar> = v"
      unfolding av same sv by (simp add: v)
    finally show ?thesis .
  qed
qed

lemma roundDouble_error:
  assumes "\<bar>z\<bar> \<le> 2 powi k" "- 1021 \<le> k" "k \<le> 1023"
  shows "\<exists>v. roundDouble z = Finite v \<and> \<bar>v - z\<bar> \<le> 2 powi (k - 54)"
proof (cases "z = 0")
  case True
  then show ?thesis
    using two_powi_pos[of "k - 54"] by (simp add: roundDouble_def)
next
  case False
  define p where "p = roundPositive \<bar>z\<bar>"
  from False have zp: "0 < \<bar>z\<bar>" by simp
  have err: "\<bar>p - \<bar>z\<bar>\<bar> \<le> 2 powi (k - 54)"
    unfolding p_def by (rule roundPositive_error[OF zp assms(1,2)])
  have "(2::rat) powi (k - 54) < 2 powi k"
    by (intro power_int_strict_increasing) simp_all
  with err assms(1) have "p < 2 powi k + 2 powi k"
    by linarith
  also have "\<dots> = 2 powi (k + 1)"
    by (simp add: two_powi_Suc)
  also have "\<dots> \<le> 2 powi 1024"
    using assms(3) by (intro two_powi_mono) simp
  finally have small: "p < 2 powi 1024" .
  have "\<bar>sgn z * p - z\<bar> = \<bar>p - \<bar>z\<bar>\<bar>"
    using False by (auto simp: sgn_if)
  with err small False show ?thesis
    by (simp add: roundDouble_def p_def[symmetric])
qed

lemma isNumber_roundDouble: "isNumber (roundDouble z)"
  by (cases "roundDouble z") (simp_all add: isNumber_def roundDouble_fixed)

lemma isNumber_signedInfinity: "isNumber (signedInfinity s)"
  by (simp add: isNumber_def signedInfinity_def)

lemma isNumber_numMul: "isNumber (numMul x y)"
  by (cases x; cases y)
     (simp_all add: isNumber_roundDouble isNumber_signedInfinity, simp_all add: isNumber_def)

lemma isNumber_numDiv_30: "isNumber (numDiv x (Finite 30))"
  by (cases x)
     (simp_all add: isNumber_roundDouble isNumber_signedInfinity, simp_all add: isNumber_def)

lemma numMul_one: "isNumber t \<Longrightarrow> numMul t (Finite 1) = t"
  by (cases t) (simp_all add: isNumber_def signedInfinity_def)

lemma numMul_minus_one: "isNumber t \<Longrightarrow> numMul (numNeg t) (Finite (- 1)) = t"
  by (cases t) (simp_all add: isNumber_def signedInfinity_def)

lemma numSub_zero: "isNumber q \<Longrightarrow> numSub (Finite 0) q = numNeg q"
  by (cases q) (simp_all add: isNumber_def numSub_def roundDouble_minus)

lemma numMul_numNeg: "numMul x (numNeg y) = numNeg (numMul x y)"
  by (cases x; cases y) (simp_all add: roundDouble_minus signedInfinity_def sgn_if)

lemma roundToTwoDecimalPlaces_Finite:
  assumes "roundDouble (x * 100) = Finite v"
  shows "roundToTwoDecimalPlaces (Finite x) = roundDouble (of_int \<lfloor>v + 1 / 2\<rfloor> / 100)"
  using assms by (simp add: roundToTwoDecimalPlaces_def)

section \<open>Evaluation on literals\<close>

text \<open>
  The equations that compute the module on concrete contracts.  The floor of a quotient of
  numerals is an integer division.
\<close>

lemma floor_numeral_div_rat:
  "\<lfloor>numeral a / numeral b :: rat\<rfloor> = numeral a div numeral b"
  using floor_divide_of_int_eq[of "numeral a" "numeral b", where ?'a = rat] by simp

lemma floor_one_div_rat:
  "\<lfloor>1 / numeral b :: rat\<rfloor> = 1 div numeral b"
  using floor_divide_of_int_eq[of 1 "numeral b", where ?'a = rat] by simp

lemma floor_neg_numeral_div_rat:
  "\<lfloor>- (numeral a / numeral b) :: rat\<rfloor> = - numeral a div numeral b"
  using floor_divide_of_int_eq[of "- numeral a" "numeral b", where ?'a = rat] by simp

lemmas number_eval =
  roundDouble_def roundPositive_def ulpExponent_def roundHalfEven_def binade.simps
  floor_numeral_div_rat floor_one_div_rat floor_neg_numeral_div_rat
  signedInfinity_def numSub_def numLessEq_def numberOfBool_def numberOfInt_def

lemmas module_eval =
  calculateMonthlyRent_def calculateFirstMonthRent_def correctRentDueDate_def
  getDaysInMonth_def newDate_def twoDigitYear_def normDay.simps monthLength_def inLeapYear_def
  isVacant_def rentLoop.simps calculateMonthDifference_def jsRemainder_def
  roundToTwoDecimalPlaces_def calculateNewMonthlyRent_def Let_def

section \<open>Facts about dates\<close>

lemma monthLength_bounds: "28 \<le> monthLength y m \<and> monthLength y m \<le> 31"
  by (simp add: monthLength_def)

lemma normDay_in_range:
  "1 \<le> d \<Longrightarrow> d \<le> monthLength y m \<Longrightarrow>
   normDay y m d = \<lparr>getFullYear = y, getMonth = m, getDate = d\<rparr>"
  by (subst normDay.simps) simp

lemma newDate_in_range:
  assumes "0 \<le> m" "m \<le> 11" "1 \<le> d" "d \<le> monthLength (twoDigitYear y) m"
  shows "newDate y m d = \<lparr>getFullYear = twoDigitYear y, getMonth = m, getDate = d\<rparr>"
  using assms by (simp add: newDate_def normDay_in_range)

lemma getDaysInMonth_monthLength:
  assumes "0 \<le> m" "m \<le> 11"
  shows "getDaysInMonth y m = monthLength (twoDigitYear y) m"
proof (cases "m = 11")
  case True
  have "newDate y 12 0 = normDay (twoDigitYear y + 1) 0 0"
    by (simp add: newDate_def)
  also have "\<dots> = normDay (twoDigitYear y) 11 (monthLength (twoDigitYear y) 11)"
    by (subst normDay.simps) simp
  also have "\<dots> = \<lparr>getFullYear = twoDigitYear y, getMonth = 11,
                     getDate = monthLength (twoDigitYear y) 11\<rparr>"
    using monthLength_bounds[of "twoDigitYear y" 11] by (intro normDay_in_range) simp_all
  finally show ?thesis
    using True by (simp add: getDaysInMonth_def)
next
  case False
  with assms have m: "0 \<le> m" "m < 11" by simp_all
  then have "newDate y (m + 1) 0 = normDay (twoDigitYear y) (m + 1) 0"
    by (simp add: newDate_def)
  also have "\<dots> = normDay (twoDigitYear y) m (monthLength (twoDigitYear y) m)"
    using m by (subst normDay.simps) simp
  also have "\<dots> = \<lparr>getFullYear = twoDigitYear y, getMonth = m,
                     getDate = monthLength (twoDigitYear y) m\<rparr>"
    using monthLength_bounds[of "twoDigitYear y" m] by (intro normDay_in_range) simp_all
  finally show ?thesis
    by (simp add: getDaysInMonth_def)
qed

section \<open>The vacancy flag along the loop\<close>

lemma calculateFirstMonthRent_vacancy:
  "r \<in> set (calculateFirstMonthRent dueDay leaseStart base rate) \<Longrightarrow> vacancy r = isVacant rate"
  by (auto simp: calculateFirstMonthRent_def Let_def split: if_splits)

lemma rentLoop_vacancy:
  "rentLoop c month recs = Inr out \<Longrightarrow>
   (\<forall>r\<in>set recs. vacancy r = isVacant (rentChangeRate c)) \<Longrightarrow>
   (\<forall>r\<in>set out. vacancy r = isVacant (rentChangeRate c))"
proof (induction c month recs rule: rentLoop.induct)
  case (1 c month recs)
  show ?case
  proof (cases "recs \<noteq> [] \<and>
      month \<le> calculateMonthDifference (windowEndDate c) (rentDueDate (last recs))")
    case False
    with "1.prems" show ?thesis
      by (subst (asm) rentLoop.simps) (auto split: if_splits)
  next
    case True
    define dueDate where "dueDate = correctRentDueDate (getFullYear (leaseStartDate c))
                         (getMonth (rentDueDate (last recs)) + 1) (dayOfMonthRentDue c)"
    define amount where "amount =
               (if jsRemainder month (rentRateChangeFrequency c) = Some 0 then
                  Inr (roundToTwoDecimalPlaces
                        (calculateNewMonthlyRent (rentAmount (last recs)) (rentChangeRate c)))
                else if 0 \<le> month \<and> month < int (length recs) then
                  Inr (roundToTwoDecimalPlaces (rentAmount (recs ! nat month)))
                else Inl TypeError)"
    have step: "rentLoop c month recs =
        (case amount of Inl e \<Rightarrow> Inl e
         | Inr a \<Rightarrow> rentLoop c (month + 1)
             (recs @ [\<lparr>vacancy = isVacant (rentChangeRate c), rentAmount = a,
                       rentDueDate = dueDate\<rparr>]))"
      using True by (subst rentLoop.simps) (simp add: dueDate_def amount_def Let_def)
    with "1.prems"(1) obtain a where a: "amount = Inr a"
      and run: "rentLoop c (month + 1)
             (recs @ [\<lparr>vacancy = isVacant (rentChangeRate c), rentAmount = a,
                       rentDueDate = dueDate\<rparr>]) = Inr out"
      by (cases amount) auto
    from True have ne: "recs \<noteq> []"
      and le: "month \<le> calculateMonthDifference (windowEndDate c) (rentDueDate (last recs))"
      by simp_all
    show ?thesis
      using "1.IH"[OF ne le dueDate_def amount_def a] run "1.prems"(2) by simp
  qed
qed

section \<open>When the loop stops, and when the lookback is in range\<close>

text \<open>
  The loop adds nothing when the counter already exceeds the month difference.  This is the
  case for a window that ends no later than the month of the last seeded due date, unless
  that month is January (index 0).
\<close>

lemma calculateFirstMonthRent_nonempty:
  "calculateFirstMonthRent dueDay leaseStart base rate \<noteq> []"
  by (simp add: calculateFirstMonthRent_def Let_def)

lemma rentLoop_stops:
  "recs \<noteq> [] \<Longrightarrow>
   calculateMonthDifference (windowEndDate c) (rentDueDate (last recs)) < month \<Longrightarrow>
   rentLoop c month recs = Inr recs"
  by (subst rentLoop.simps) simp

lemma first_cycle_only_outside_january:
  fixes c :: Contract
  defines "seed \<equiv> calculateFirstMonthRent (dayOfMonthRentDue c) (leaseStartDate c)
                     (baseMonthlyRent c) (rentChangeRate c)"
  assumes "getFullYear (windowEndDate c) < getFullYear (rentDueDate (last seed))
           \<or> getFullYear (windowEndDate c) = getFullYear (rentDueDate (last seed))
             \<and> getMonth (windowEndDate c) \<le> getMonth (rentDueDate (last seed))"
    and "1 \<le> getMonth (rentDueDate (last seed))"
  shows "calculateMonthlyRent c = Inr seed"
proof -
  have "calculateMonthDifference (windowEndDate c) (rentDueDate (last seed))
          < getMonth (rentDueDate (last seed))"
    using assms(2,3) by (auto simp: calculateMonthDifference_def)
  moreover have "seed \<noteq> []"
    by (simp add: seed_def calculateFirstMonthRent_nonempty)
  ultimately have "rentLoop c (getMonth (rentDueDate (last seed))) seed = Inr seed"
    by (intro rentLoop_stops)
  then show ?thesis
    using \<open>seed \<noteq> []\<close> by (simp add: calculateMonthlyRent_def seed_def Let_def)
qed

text \<open>
  Counter and array length grow together, so the lookback stays in range through the whole
  run when it is in range at the start: the month index of the last seeded due date must be
  smaller than the number of seeded records.
\<close>

lemma rentLoop_counter_in_bounds:
  "recs \<noteq> [] \<Longrightarrow> 0 \<le> month \<Longrightarrow> month < int (length recs) \<Longrightarrow>
   \<exists>out. rentLoop c month recs = Inr out"
proof (induction c month recs rule: rentLoop.induct)
  case (1 c month recs)
  show ?case
  proof (cases "month \<le> calculateMonthDifference (windowEndDate c) (rentDueDate (last recs))")
    case False
    with "1.prems" show ?thesis
      by (subst rentLoop.simps) simp
  next
    case True
    define dueDate where "dueDate = correctRentDueDate (getFullYear (leaseStartDate c))
                         (getMonth (rentDueDate (last recs)) + 1) (dayOfMonthRentDue c)"
    define amount where "amount =
               (if jsRemainder month (rentRateChangeFrequency c) = Some 0 then
                  Inr (roundToTwoDecimalPlaces
                        (calculateNewMonthlyRent (rentAmount (last recs)) (rentChangeRate c)))
                else if 0 \<le> month \<and> month < int (length recs) then
                  Inr (roundToTwoDecimalPlaces (rentAmount (recs ! nat month)))
                else Inl TypeError)"
    from "1.prems" have "\<exists>a. amount = Inr a"
      by (simp add: amount_def)
    then obtain a where a: "amount = Inr a" ..
    have step: "rentLoop c month recs =
        rentLoop c (month + 1)
             (recs @ [\<lparr>vacancy = isVacant (rentChangeRate c), rentAmount = a,
                       rentDueDate = dueDate\<rparr>])"
      using True "1.prems"(1) a
      by (subst rentLoop.simps) (simp add: dueDate_def amount_def Let_def)
    show ?thesis
      unfolding step
      using "1.IH"[OF "1.prems"(1) True dueDate_def amount_def a] "1.prems" by simp
  qed
qed

lemma no_TypeError_when_counter_starts_in_bounds:
  fixes c :: Contract
  defines "seed \<equiv> calculateFirstMonthRent (dayOfMonthRentDue c) (leaseStartDate c)
                     (baseMonthlyRent c) (rentChangeRate c)"
  assumes "0 \<le> getMonth (rentDueDate (last seed))"
    and "getMonth (rentDueDate (last seed)) < int (length seed)"
  shows "\<exists>out. calculateMonthlyRent c = Inr out"
  using rentLoop_counter_in_bounds[OF _ assms(2,3), of c] calculateFirstMonthRent_nonempty
  by (simp add: calculateMonthlyRent_def seed_def Let_def)

section \<open>The schedule on concrete contracts\<close>

text \<open>
  C1.  The scenario: base rent 1000, lease start 2024-01-15, rent due on day 15, window from
  2024-01-01 to 2024-03-31, a change of 0.05 every 12 months.  The module returns three
  records, none vacant, due on 15 January, 15 February and 15 March 2024; their amounts are
  1000, 1050 and 1050.  The counter of the loop starts at the month index of the first due
  date, 0 for January, and 0 is a multiple of the frequency, so the record of February is
  already raised.
\<close>

theorem scenario_2024_first_quarter:
  "calculateMonthlyRent
     \<lparr>baseMonthlyRent = Finite 1000,
      leaseStartDate = \<lparr>getFullYear = 2024, getMonth = 0, getDate = 15\<rparr>,
      windowStartDate = \<lparr>getFullYear = 2024, getMonth = 0, getDate = 1\<rparr>,
      windowEndDate = \<lparr>getFullYear = 2024, getMonth = 2, getDate = 31\<rparr>,
      dayOfMonthRentDue = 15, rentRateChangeFrequency = 12,
      rentChangeRate = roundDouble (5 / 100)\<rparr>
   = Inr [\<lparr>vacancy = False, rentAmount = Finite 1000,
           rentDueDate = \<lparr>getFullYear = 2024, getMonth = 0, getDate = 15\<rparr>\<rparr>,
          \<lparr>vacancy = False, rentAmount = Finite 1050,
           rentDueDate = \<lparr>getFullYear = 2024, getMonth = 1, getDate = 15\<rparr>\<rparr>,
          \<lparr>vacancy = False, rentAmount = Finite 1050,
           rentDueDate = \<lparr>getFullYear = 2024, getMonth = 2, getDate = 15\<rparr>\<rparr>]"
  by (simp add: number_eval module_eval)

text \<open>
  C2.  With a frequency of 12 and a rate of 0.05, a lease that starts on 2024-01-10 with rent
  due on day 15 and a window that ends on 2024-04-30 yields the amounts 166.67, 1000, 1050
  and 1000.  The fourth record comes from the branch without escalation (counter 1, not a
  multiple of 12), and its amount differs from that of the record before it: the branch
  reads the record at index \<open>month\<close>, here the January record, where the other branch
  reads the last record.
\<close>

theorem lookback_reads_index_month:
  "calculateMonthlyRent
     \<lparr>baseMonthlyRent = Finite 1000,
      leaseStartDate = \<lparr>getFullYear = 2024, getMonth = 0, getDate = 10\<rparr>,
      windowStartDate = \<lparr>getFullYear = 2024, getMonth = 0, getDate = 1\<rparr>,
      windowEndDate = \<lparr>getFullYear = 2024, getMonth = 3, getDate = 30\<rparr>,
      dayOfMonthRentDue = 15, rentRateChangeFrequency = 12,
      rentChangeRate = roundDouble (5 / 100)\<rparr>
   = Inr [\<lparr>vacancy = False, rentAmount = roundDouble (16667 / 100),
           rentDueDate = \<lparr>getFullYear = 2024, getMonth = 0, getDate = 10\<rparr>\<rparr>,
          \<lparr>vacancy = False, rentAmount = Finite 1000,
           rentDueDate = \<lparr>getFullYear = 2024, getMonth = 0, getDate = 15\<rparr>\<rparr>,
          \<lparr>vacancy = False, rentAmount = Finite 1050,
           rentDueDate = \<lparr>getFullYear = 2024, getMonth = 1, getDate = 15\<rparr>\<rparr>,
          \<lparr>vacancy = False, rentAmount = Finite 1000,
           rentDueDate = \<lparr>getFullYear = 2024, getMonth = 2, getDate = 15\<rparr>\<rparr>]
   \<and> jsRemainder 1 12 = Some 1"
  by (simp add: number_eval module_eval)

text \<open>
  C3.  Two runs whose due dates are not one per month in calendar order.  Every due date is
  built from the year of the lease start and the month after the last record's month.
  A lease from 2024-12-15 with a window to 2027-01-31 (frequency 1) gets 15 December 2024,
  15 January 2025 and then 15 February 2024: the third date is earlier than the second, and
  no record lies in 2026 or 2027.  A lease from 2024-01-15 with a window to 2024-12-31 gets
  the seven months January to July only: the counter rises while the month difference to the
  window end falls, so the loop stops half way.
\<close>

theorem due_dates_of_two_long_windows:
  "map_sum id (map rentDueDate)
     (calculateMonthlyRent
       \<lparr>baseMonthlyRent = Finite 1000,
        leaseStartDate = \<lparr>getFullYear = 2024, getMonth = 11, getDate = 15\<rparr>,
        windowStartDate = \<lparr>getFullYear = 2024, getMonth = 0, getDate = 1\<rparr>,
        windowEndDate = \<lparr>getFullYear = 2027, getMonth = 0, getDate = 31\<rparr>,
        dayOfMonthRentDue = 15, rentRateChangeFrequency = 1,
        rentChangeRate = roundDouble (5 / 100)\<rparr>)
   = Inr [\<lparr>getFullYear = 2024, getMonth = 11, getDate = 15\<rparr>,
          \<lparr>getFullYear = 2025, getMonth = 0, getDate = 15\<rparr>,
          \<lparr>getFullYear = 2024, getMonth = 1, getDate = 15\<rparr>,
          \<lparr>getFullYear = 2024, getMonth = 2, getDate = 15\<rparr>,
          \<lparr>getFullYear = 2024, getMonth = 3, getDate = 15\<rparr>,
          \<lparr>getFullYear = 2024, getMonth = 4, getDate = 15\<rparr>,
          \<lparr>getFullYear = 2024, getMonth = 5, getDate = 15\<rparr>,
          \<lparr>getFullYear = 2024, getMonth = 6, getDate = 15\<rparr>,
          \<lparr>getFullYear = 2024, getMonth = 7, getDate = 15\<rparr>,
          \<lparr>getFullYear = 2024, getMonth = 8, getDate = 15\<rparr>,
          \<lparr>getFullYear = 2024, getMonth = 9, getDate = 15\<rparr>,
          \<lparr>getFullYear = 2024, getMonth = 10, getDate = 15\<rparr>,
          \<lparr>getFullYear = 2024, getMonth = 11, getDate = 15\<rparr>,
          \<lparr>getFullYear = 2025, getMonth = 0, getDate = 15\<rparr>]
   \<and> \<not> dateLessEq \<lparr>getFullYear = 2025, getMonth = 0, getDate = 15\<rparr>
                    \<lparr>getFullYear = 2024, getMonth = 1, getDate = 15\<rparr>
   \<and> map_sum id (map rentDueDate)
     (calculateMonthlyRent
       \<lparr>baseMonthlyRent = Finite 1000,
        leaseStartDate = \<lparr>getFullYear = 2024, getMonth = 0, getDate = 15\<rparr>,
        windowStartDate = \<lparr>getFullYear = 2024, getMonth = 0, getDate = 1\<rparr>,
        windowEndDate = \<lparr>getFullYear = 2024, getMonth = 11, getDate = 31\<rparr>,
        dayOfMonthRentDue = 15, rentRateChangeFrequency = 12,
        rentChangeRate = roundDouble (5 / 100)\<rparr>)
   = Inr [\<lparr>getFullYear = 2024, getMonth = 0, getDate = 15\<rparr>,
          \<lparr>getFullYear = 2024, getMonth = 1, getDate = 15\<rparr>,
          \<lparr>getFullYear = 2024, getMonth = 2, getDate = 15\<rparr>,
          \<lparr>getFullYear = 2024, getMonth = 3, getDate = 15\<rparr>,
          \<lparr>getFullYear = 2024, getMonth = 4, getDate = 15\<rparr>,
          \<lparr>getFullYear = 2024, getMonth = 5, getDate = 15\<rparr>,
          \<lparr>getFullYear = 2024, getMonth = 6, getDate = 15\<rparr>]"
  by (simp add: number_eval module_eval dateLessEq_def)

text \<open>
  C4.  A window that ends on 2024-01-10, before the first due date 2024-01-15 of a lease that
  starts on that day: \<open>calculateFirstMonthRent\<close> yields one record, and
  \<open>calculateMonthlyRent\<close> returns two.  Counter and month difference are both 0 in
  January, so the loop runs once and appends a record due on 15 February.
\<close>

theorem january_window_gets_february_record:
  "calculateFirstMonthRent 15 \<lparr>getFullYear = 2024, getMonth = 0, getDate = 15\<rparr> (Finite 1000) (roundDouble (5 / 100))
   = [\<lparr>vacancy = False, rentAmount = Finite 1000,
       rentDueDate = \<lparr>getFullYear = 2024, getMonth = 0, getDate = 15\<rparr>\<rparr>]
   \<and> calculateMonthlyRent
     \<lparr>baseMonthlyRent = Finite 1000,
      leaseStartDate = \<lparr>getFullYear = 2024, getMonth = 0, getDate = 15\<rparr>,
      windowStartDate = \<lparr>getFullYear = 2024, getMonth = 0, getDate = 1\<rparr>,
      windowEndDate = \<lparr>getFullYear = 2024, getMonth = 0, getDate = 10\<rparr>,
      dayOfMonthRentDue = 15, rentRateChangeFrequency = 12,
      rentChangeRate = roundDouble (5 / 100)\<rparr>
   = Inr [\<lparr>vacancy = False, rentAmount = Finite 1000,
           rentDueDate = \<lparr>getFullYear = 2024, getMonth = 0, getDate = 15\<rparr>\<rparr>,
          \<lparr>vacancy = False, rentAmount = Finite 1050,
           rentDueDate = \<lparr>getFullYear = 2024, getMonth = 1, getDate = 15\<rparr>\<rparr>]"
  by (simp add: number_eval module_eval)

section \<open>The helpers\<close>

text \<open>
  C5.  \<open>calculateMonthDifference\<close> returns -1 when the year of its second argument, the
  start of the window, is later than the year of its first argument, the end of the window.
\<close>

theorem calculateMonthDifference_start_year_later:
  "getFullYear windowStart > getFullYear windowEnd \<Longrightarrow>
   calculateMonthDifference windowEnd windowStart = - 1"
  by (simp add: calculateMonthDifference_def)

theorem calculateMonthDifference_start_year_later_witness:
  "getFullYear \<lparr>getFullYear = 2025, getMonth = 0, getDate = 15\<rparr>
     > getFullYear \<lparr>getFullYear = 2024, getMonth = 11, getDate = 31\<rparr>
   \<and> calculateMonthDifference \<lparr>getFullYear = 2024, getMonth = 11, getDate = 31\<rparr>
         \<lparr>getFullYear = 2025, getMonth = 0, getDate = 15\<rparr> = - 1"
proof -
  have later: "getFullYear \<lparr>getFullYear = 2025, getMonth = 0, getDate = 15\<rparr>
     > getFullYear \<lparr>getFullYear = 2024, getMonth = 11, getDate = 31\<rparr>"
    by simp
  from calculateMonthDifference_start_year_later[OF later] later show ?thesis
    by blast
qed

text \<open>
  C5, the other way round: when the year of the first argument is the later one, the result
  need not be -1.  From January 2024 to March 2025 it is 2.
\<close>

theorem calculateMonthDifference_end_year_later_counterexample:
  "getFullYear \<lparr>getFullYear = 2025, getMonth = 2, getDate = 31\<rparr>
     > getFullYear \<lparr>getFullYear = 2024, getMonth = 0, getDate = 15\<rparr>
   \<and> calculateMonthDifference \<lparr>getFullYear = 2025, getMonth = 2, getDate = 31\<rparr>
         \<lparr>getFullYear = 2024, getMonth = 0, getDate = 15\<rparr> = 2
   \<and> calculateMonthDifference \<lparr>getFullYear = 2025, getMonth = 2, getDate = 31\<rparr>
         \<lparr>getFullYear = 2024, getMonth = 0, getDate = 15\<rparr> \<noteq> - 1"
  by (simp add: calculateMonthDifference_def)

text \<open>
  C6.  The three cases of \<open>calculateFirstMonthRent\<close>, with every operation a binary64
  operation and the quotient \<open>q = (dueDay - startDay) / 30\<close> formed first.  Due day equal to
  the day of the lease start: one record at the corrected due date of the lease-start month,
  with the base rent.  Due day before the day of the lease start: one record at the
  corrected due date, with the amount round2(base * (1 - q)).  Due day after the day of the
  lease start: two records, the first dated at the lease start with the amount
  round2(base * q), the second at the corrected due date with the base rent, not rounded.
\<close>

theorem calculateFirstMonthRent_three_cases:
  "(dueDay = getDate leaseStart \<longrightarrow>
      calculateFirstMonthRent dueDay leaseStart base rate =
        [\<lparr>vacancy = isVacant rate, rentAmount = base,
          rentDueDate = correctRentDueDate (getFullYear leaseStart) (getMonth leaseStart) dueDay\<rparr>])
   \<and> (dueDay < getDate leaseStart \<longrightarrow>
      calculateFirstMonthRent dueDay leaseStart base rate =
        [\<lparr>vacancy = isVacant rate,
          rentAmount = roundToTwoDecimalPlaces
            (numMul base
              (numSub (Finite 1)
                (numDiv (numberOfInt (dueDay - getDate leaseStart)) (Finite 30)))),
          rentDueDate = correctRentDueDate (getFullYear leaseStart) (getMonth leaseStart) dueDay\<rparr>])
   \<and> (dueDay > getDate leaseStart \<longrightarrow>
      calculateFirstMonthRent dueDay leaseStart base rate =
        [\<lparr>vacancy = isVacant rate,
          rentAmount = roundToTwoDecimalPlaces
            (numMul base (numDiv (numberOfInt (dueDay - getDate leaseStart)) (Finite 30))),
          rentDueDate = leaseStart\<rparr>,
         \<lparr>vacancy = isVacant rate, rentAmount = base,
          rentDueDate = correctRentDueDate (getFullYear leaseStart) (getMonth leaseStart) dueDay\<rparr>])"
proof (intro conjI impI)
  assume "dueDay = getDate leaseStart"
  then show "calculateFirstMonthRent dueDay leaseStart base rate =
        [\<lparr>vacancy = isVacant rate, rentAmount = base,
          rentDueDate = correctRentDueDate (getFullYear leaseStart) (getMonth leaseStart) dueDay\<rparr>]"
    by (simp add: calculateFirstMonthRent_def)
next
  let ?q = "numDiv (numberOfInt (dueDay - getDate leaseStart)) (Finite 30)"
  assume "dueDay < getDate leaseStart"
  then show "calculateFirstMonthRent dueDay leaseStart base rate =
        [\<lparr>vacancy = isVacant rate,
          rentAmount = roundToTwoDecimalPlaces (numMul base (numSub (Finite 1) ?q)),
          rentDueDate = correctRentDueDate (getFullYear leaseStart) (getMonth leaseStart) dueDay\<rparr>]"
    by (simp add: calculateFirstMonthRent_def Let_def numberOfBool_def numMul_one isNumber_numMul)
next
  let ?q = "numDiv (numberOfInt (dueDay - getDate leaseStart)) (Finite 30)"
  assume after: "getDate leaseStart < dueDay"
  have "numMul (numMul base (numSub (Finite 0) ?q)) (Finite (- 1)) = numMul base ?q"
    by (simp add: numSub_zero isNumber_numDiv_30 numMul_numNeg numMul_minus_one isNumber_numMul)
  with after show "calculateFirstMonthRent dueDay leaseStart base rate =
        [\<lparr>vacancy = isVacant rate,
          rentAmount = roundToTwoDecimalPlaces (numMul base ?q),
          rentDueDate = leaseStart\<rparr>,
         \<lparr>vacancy = isVacant rate, rentAmount = base,
          rentDueDate = correctRentDueDate (getFullYear leaseStart) (getMonth leaseStart) dueDay\<rparr>]"
    by (simp add: calculateFirstMonthRent_def Let_def numberOfBool_def)
qed

theorem calculateFirstMonthRent_three_cases_witness:
  "calculateFirstMonthRent 15 \<lparr>getFullYear = 2024, getMonth = 0, getDate = 15\<rparr>
     (Finite 1000) (roundDouble (5 / 100)) =
     [\<lparr>vacancy = False, rentAmount = Finite 1000,
       rentDueDate = \<lparr>getFullYear = 2024, getMonth = 0, getDate = 15\<rparr>\<rparr>]
   \<and> calculateFirstMonthRent 10 \<lparr>getFullYear = 2024, getMonth = 0, getDate = 15\<rparr>
     (Finite 1000) (roundDouble (5 / 100)) =
     [\<lparr>vacancy = False, rentAmount = roundDouble (116667 / 100),
       rentDueDate = \<lparr>getFullYear = 2024, getMonth = 0, getDate = 10\<rparr>\<rparr>]
   \<and> calculateFirstMonthRent 20 \<lparr>getFullYear = 2024, getMonth = 0, getDate = 15\<rparr>
     (Finite 1000) (roundDouble (5 / 100)) =
     [\<lparr>vacancy = False, rentAmount = roundDouble (16667 / 100),
       rentDueDate = \<lparr>getFullYear = 2024, getMonth = 0, getDate = 15\<rparr>\<rparr>,
      \<lparr>vacancy = False, rentAmount = Finite 1000,
       rentDueDate = \<lparr>getFullYear = 2024, getMonth = 0, getDate = 20\<rparr>\<rparr>]"
proof -
  let ?start = "\<lparr>getFullYear = 2024, getMonth = 0, getDate = 15\<rparr>"
  have vac: "isVacant (roundDouble (5 / 100)) = False"
    by (simp add: number_eval module_eval)
  have due: "correctRentDueDate 2024 0 15 = \<lparr>getFullYear = 2024, getMonth = 0, getDate = 15\<rparr>"
    "correctRentDueDate 2024 0 10 = \<lparr>getFullYear = 2024, getMonth = 0, getDate = 10\<rparr>"
    "correctRentDueDate 2024 0 20 = \<lparr>getFullYear = 2024, getMonth = 0, getDate = 20\<rparr>"
    by (simp_all add: module_eval)
  have amount:
    "roundToTwoDecimalPlaces
       (numMul (Finite 1000) (numSub (Finite 1) (numDiv (numberOfInt (10 - 15)) (Finite 30))))
     = roundDouble (116667 / 100)"
    "roundToTwoDecimalPlaces (numMul (Finite 1000) (numDiv (numberOfInt (20 - 15)) (Finite 30)))
     = roundDouble (16667 / 100)"
    by (simp_all add: number_eval module_eval)
  have c1: "calculateFirstMonthRent 15 ?start (Finite 1000) (roundDouble (5 / 100)) =
     [\<lparr>vacancy = False, rentAmount = Finite 1000,
       rentDueDate = \<lparr>getFullYear = 2024, getMonth = 0, getDate = 15\<rparr>\<rparr>]"
    using calculateFirstMonthRent_three_cases[of 15 ?start "Finite 1000" "roundDouble (5 / 100)"]
    unfolding vac by (simp add: due)
  have c2: "calculateFirstMonthRent 10 ?start (Finite 1000) (roundDouble (5 / 100)) =
     [\<lparr>vacancy = False, rentAmount = roundDouble (116667 / 100),
       rentDueDate = \<lparr>getFullYear = 2024, getMonth = 0, getDate = 10\<rparr>\<rparr>]"
    using calculateFirstMonthRent_three_cases[of 10 ?start "Finite 1000" "roundDouble (5 / 100)"]
      amount(1)
    unfolding vac by (simp add: due)
  have c3: "calculateFirstMonthRent 20 ?start (Finite 1000) (roundDouble (5 / 100)) =
     [\<lparr>vacancy = False, rentAmount = roundDouble (16667 / 100),
       rentDueDate = \<lparr>getFullYear = 2024, getMonth = 0, getDate = 15\<rparr>\<rparr>,
      \<lparr>vacancy = False, rentAmount = Finite 1000,
       rentDueDate = \<lparr>getFullYear = 2024, getMonth = 0, getDate = 20\<rparr>\<rparr>]"
    using calculateFirstMonthRent_three_cases[of 20 ?start "Finite 1000" "roundDouble (5 / 100)"]
      amount(2)
    unfolding vac by (simp add: due)
  from c1 c2 c3 show ?thesis by blast
qed

text \<open>
  C6, read as arithmetic on exact numbers or from left to right: for a base rent of 1000.75,
  a lease that starts on day 6 and rent due on day 15, the first record's amount is 300.22.
  The product \<open>base * 9\<close> divided by 30 gives 300.23 after rounding, in binary64 as in
  exact arithmetic (300.225, a tie that goes up): the quotient 9 / 30 is rounded below 0.3
  before the module multiplies.
\<close>

theorem prorated_amount_association_counterexample:
  "map rentAmount
     (calculateFirstMonthRent 15 \<lparr>getFullYear = 2024, getMonth = 0, getDate = 6\<rparr>
        (Finite (4003 / 4)) (roundDouble (5 / 100)))
   = [roundDouble (30022 / 100), Finite (4003 / 4)]
   \<and> roundToTwoDecimalPlaces
        (numDiv (numMul (Finite (4003 / 4)) (numberOfInt (15 - 6))) (Finite 30))
     = roundDouble (30023 / 100)
   \<and> (of_int \<lfloor>4003 / 4 * of_int (15 - 6) / 30 * 100 + 1 / 2\<rfloor> / 100 :: rat) = 30023 / 100
   \<and> roundDouble (30022 / 100) \<noteq> roundDouble (30023 / 100)"
  by (simp add: number_eval module_eval)

text \<open>
  C7.  For a month from 0 to 11 and a desired day of at least 1, \<open>correctRentDueDate\<close>
  returns the date of that month with the desired day when the month has that many days, and
  the last day of the month otherwise.  Day 31 in a month of 30 days gives day 30; day 30 in
  February gives day 29 in a leap year and day 28 in any other year.  The year of the result
  is the year the \<^verbatim>\<open>Date\<close> constructor takes \<open>y\<close> for: \<open>y\<close> itself, except that 0 to 99
  stand for 1900 to 1999.
\<close>

theorem correctRentDueDate_clamps:
  assumes "0 \<le> m" "m \<le> 11" "1 \<le> d"
  shows "correctRentDueDate y m d =
           \<lparr>getFullYear = twoDigitYear y, getMonth = m,
            getDate = (if d \<le> monthLength (twoDigitYear y) m then d
                       else monthLength (twoDigitYear y) m)\<rparr>
         \<and> (monthLength (twoDigitYear y) m = 30 \<longrightarrow> getDate (correctRentDueDate y m 31) = 30)
         \<and> getDate (correctRentDueDate y 1 30) = (if inLeapYear (twoDigitYear y) then 29 else 28)"
proof -
  have clamp: "correctRentDueDate y k e =
           \<lparr>getFullYear = twoDigitYear y, getMonth = k,
            getDate = (if e \<le> monthLength (twoDigitYear y) k then e
                       else monthLength (twoDigitYear y) k)\<rparr>"
    if "0 \<le> k" "k \<le> 11" "1 \<le> e" for k e
  proof (cases "e \<le> monthLength (twoDigitYear y) k")
    case True
    with that show ?thesis
      by (simp add: correctRentDueDate_def getDaysInMonth_monthLength newDate_in_range)
  next
    case False
    with that monthLength_bounds[of "twoDigitYear y" k] show ?thesis
      by (simp add: correctRentDueDate_def getDaysInMonth_monthLength newDate_in_range)
  qed
  have feb: "monthLength (twoDigitYear y) 1 = (if inLeapYear (twoDigitYear y) then 29 else 28)"
    by (simp add: monthLength_def)
  show ?thesis
    using clamp[OF assms] clamp[of m 31] clamp[of 1 30] assms feb by simp
qed

theorem correctRentDueDate_clamps_witness:
  "correctRentDueDate 2024 1 30 = \<lparr>getFullYear = 2024, getMonth = 1, getDate = 29\<rparr>
   \<and> correctRentDueDate 2023 1 30 = \<lparr>getFullYear = 2023, getMonth = 1, getDate = 28\<rparr>
   \<and> correctRentDueDate 2024 3 31 = \<lparr>getFullYear = 2024, getMonth = 3, getDate = 30\<rparr>
   \<and> correctRentDueDate 2024 0 15 = \<lparr>getFullYear = 2024, getMonth = 0, getDate = 15\<rparr>"
proof -
  have ml: "monthLength 2024 1 = 29" "monthLength 2023 1 = 28" "monthLength 2024 3 = 30"
    "monthLength 2024 0 = 31"
    by (simp_all add: monthLength_def inLeapYear_def)
  have ty: "twoDigitYear 2024 = 2024" "twoDigitYear 2023 = 2023"
    by (simp_all add: twoDigitYear_def)
  show ?thesis
    using correctRentDueDate_clamps[of 1 30 2024] correctRentDueDate_clamps[of 1 30 2023]
      correctRentDueDate_clamps[of 3 31 2024] correctRentDueDate_clamps[of 0 15 2024]
    by (simp add: ml ty)
qed

section \<open>Properties of every run\<close>

text \<open>
  C8.  In every sequence that \<open>calculateMonthlyRent\<close> returns, all records are vacant when
  the change rate is negative, and none is when the rate is zero or positive.
\<close>

theorem vacancy_follows_rate_sign:
  assumes "calculateMonthlyRent c = Inr recs"
  shows "(numLess (rentChangeRate c) (Finite 0) \<longrightarrow> (\<forall>r\<in>set recs. vacancy r))
       \<and> (numLessEq (Finite 0) (rentChangeRate c) \<longrightarrow> (\<forall>r\<in>set recs. \<not> vacancy r))"
proof -
  let ?first = "calculateFirstMonthRent (dayOfMonthRentDue c) (leaseStartDate c)
                  (baseMonthlyRent c) (rentChangeRate c)"
  from assms have "rentLoop c (getMonth (rentDueDate (last ?first))) ?first = Inr recs"
    by (simp add: calculateMonthlyRent_def Let_def split: if_splits)
  then have "\<forall>r\<in>set recs. vacancy r = isVacant (rentChangeRate c)"
    by (rule rentLoop_vacancy) (simp add: calculateFirstMonthRent_vacancy)
  moreover have "\<not> numLess (rentChangeRate c) (Finite 0)"
    if "numLessEq (Finite 0) (rentChangeRate c)"
    using that by (cases "rentChangeRate c") (auto simp: numLessEq_def)
  ultimately show ?thesis
    by (auto simp: isVacant_def)
qed

theorem vacancy_follows_rate_sign_witness:
  "calculateMonthlyRent
     \<lparr>baseMonthlyRent = Finite 1000,
      leaseStartDate = \<lparr>getFullYear = 2024, getMonth = 0, getDate = 15\<rparr>,
      windowStartDate = \<lparr>getFullYear = 2024, getMonth = 0, getDate = 1\<rparr>,
      windowEndDate = \<lparr>getFullYear = 2024, getMonth = 2, getDate = 31\<rparr>,
      dayOfMonthRentDue = 15, rentRateChangeFrequency = 12,
      rentChangeRate = roundDouble (- (5 / 100))\<rparr>
   = Inr [\<lparr>vacancy = True, rentAmount = Finite 1000,
           rentDueDate = \<lparr>getFullYear = 2024, getMonth = 0, getDate = 15\<rparr>\<rparr>,
          \<lparr>vacancy = True, rentAmount = Finite 950,
           rentDueDate = \<lparr>getFullYear = 2024, getMonth = 1, getDate = 15\<rparr>\<rparr>,
          \<lparr>vacancy = True, rentAmount = Finite 950,
           rentDueDate = \<lparr>getFullYear = 2024, getMonth = 2, getDate = 15\<rparr>\<rparr>]
   \<and> list_all vacancy
        [\<lparr>vacancy = True, rentAmount = Finite 1000,
           rentDueDate = \<lparr>getFullYear = 2024, getMonth = 0, getDate = 15\<rparr>\<rparr>,
          \<lparr>vacancy = True, rentAmount = Finite 950,
           rentDueDate = \<lparr>getFullYear = 2024, getMonth = 1, getDate = 15\<rparr>\<rparr>,
          \<lparr>vacancy = True, rentAmount = Finite 950,
           rentDueDate = \<lparr>getFullYear = 2024, getMonth = 2, getDate = 15\<rparr>\<rparr>]
   \<and> calculateMonthlyRent
     \<lparr>baseMonthlyRent = Finite 1000,
      leaseStartDate = \<lparr>getFullYear = 2024, getMonth = 0, getDate = 15\<rparr>,
      windowStartDate = \<lparr>getFullYear = 2024, getMonth = 0, getDate = 1\<rparr>,
      windowEndDate = \<lparr>getFullYear = 2024, getMonth = 0, getDate = 31\<rparr>,
      dayOfMonthRentDue = 15, rentRateChangeFrequency = 12,
      rentChangeRate = Finite 0\<rparr>
   = Inr [\<lparr>vacancy = False, rentAmount = Finite 1000,
           rentDueDate = \<lparr>getFullYear = 2024, getMonth = 0, getDate = 15\<rparr>\<rparr>,
          \<lparr>vacancy = False, rentAmount = Finite 1000,
           rentDueDate = \<lparr>getFullYear = 2024, getMonth = 1, getDate = 15\<rparr>\<rparr>]
   \<and> list_all (\<lambda>r. \<not> vacancy r)
        [\<lparr>vacancy = False, rentAmount = Finite 1000,
           rentDueDate = \<lparr>getFullYear = 2024, getMonth = 0, getDate = 15\<rparr>\<rparr>,
          \<lparr>vacancy = False, rentAmount = Finite 1000,
           rentDueDate = \<lparr>getFullYear = 2024, getMonth = 1, getDate = 15\<rparr>\<rparr>]"
  (is "?runNeg \<and> ?allNeg \<and> ?runZero \<and> ?allZero")
proof -
  have neg: ?runNeg
    by (simp add: number_eval module_eval)
  have zero: ?runZero
    by (simp add: number_eval module_eval)
  have "numLess (roundDouble (- (5 / 100))) (Finite 0)"
    by (simp add: number_eval)
  then have ?allNeg
    using vacancy_follows_rate_sign[OF neg] by (simp add: list_all_iff)
  moreover have "numLessEq (Finite 0) (Finite 0)"
    by (simp add: numLessEq_def)
  then have ?allZero
    using vacancy_follows_rate_sign[OF zero] by (simp add: list_all_iff)
  ultimately show ?thesis
    using neg zero by blast
qed

text \<open>
  C9.  A lease that starts on 2024-06-15 with rent due on day 15, a window to 2024-12-31 and a
  frequency of 12: the array holds one record when the loop starts with counter 5.  The
  counter is within the month difference 6 and no multiple of 12, so the first round takes
  the branch without escalation and reads index 5 of an array of length 1: the run ends
  with a \<open>TypeError\<close>.
\<close>

theorem lookback_out_of_bounds_june_lease:
  "length (calculateFirstMonthRent 15 \<lparr>getFullYear = 2024, getMonth = 5, getDate = 15\<rparr> (Finite 1000) (roundDouble (5 / 100))) = 1
   \<and> map (\<lambda>r. getMonth (rentDueDate r))
        (calculateFirstMonthRent 15 \<lparr>getFullYear = 2024, getMonth = 5, getDate = 15\<rparr> (Finite 1000) (roundDouble (5 / 100))) = [5]
   \<and> calculateMonthDifference \<lparr>getFullYear = 2024, getMonth = 11, getDate = 31\<rparr> \<lparr>getFullYear = 2024, getMonth = 5, getDate = 15\<rparr> = 6
   \<and> jsRemainder 5 12 = Some 5
   \<and> calculateMonthlyRent
     \<lparr>baseMonthlyRent = Finite 1000,
      leaseStartDate = \<lparr>getFullYear = 2024, getMonth = 5, getDate = 15\<rparr>,
      windowStartDate = \<lparr>getFullYear = 2024, getMonth = 0, getDate = 1\<rparr>,
      windowEndDate = \<lparr>getFullYear = 2024, getMonth = 11, getDate = 31\<rparr>,
      dayOfMonthRentDue = 15, rentRateChangeFrequency = 12,
      rentChangeRate = roundDouble (5 / 100)\<rparr>
   = Inl TypeError"
  by (simp add: number_eval module_eval)

section \<open>Rounding to two decimal places\<close>

text \<open>
  C10.  Rounding to two decimal places is idempotent on every finite number of magnitude at
  most \<open>2 ^ 45 = 35184372088832\<close>, on the two infinities and on NaN.  Up to \<open>2 ^ 45\<close> the
  product with 100 and the quotient by 100 are rounded by less than half a unit together, so
  that \<^verbatim>\<open>Math.round\<close> finds the same integer again.
\<close>

theorem roundToTwoDecimalPlaces_idempotent_up_to_2_45:
  "(\<bar>x\<bar> \<le> 2 ^ 45 \<longrightarrow>
      roundToTwoDecimalPlaces (roundToTwoDecimalPlaces (Finite x))
      = roundToTwoDecimalPlaces (Finite x))
   \<and> roundToTwoDecimalPlaces (roundToTwoDecimalPlaces PosInfinity)
       = roundToTwoDecimalPlaces PosInfinity
   \<and> roundToTwoDecimalPlaces (roundToTwoDecimalPlaces NegInfinity)
       = roundToTwoDecimalPlaces NegInfinity
   \<and> roundToTwoDecimalPlaces (roundToTwoDecimalPlaces NaN) = roundToTwoDecimalPlaces NaN"
proof (intro conjI impI)
  show "roundToTwoDecimalPlaces (roundToTwoDecimalPlaces PosInfinity)
       = roundToTwoDecimalPlaces PosInfinity"
    by (simp add: roundToTwoDecimalPlaces_def signedInfinity_def)
  show "roundToTwoDecimalPlaces (roundToTwoDecimalPlaces NegInfinity)
       = roundToTwoDecimalPlaces NegInfinity"
    by (simp add: roundToTwoDecimalPlaces_def signedInfinity_def)
  show "roundToTwoDecimalPlaces (roundToTwoDecimalPlaces NaN) = roundToTwoDecimalPlaces NaN"
    by (simp add: roundToTwoDecimalPlaces_def)
next
  assume bound: "\<bar>x\<bar> \<le> 2 ^ 45"
  define N :: int where "N = 100 * 2 ^ 45"
  define B :: rat where "B = of_int N"
  have B52: "B + 1 \<le> 2 powi 52" and B45: "B / 100 = 2 powi 45"
    by (simp_all add: B_def N_def)
  have xB: "\<bar>x * 100\<bar> \<le> B"
    using bound by (simp add: B_def N_def abs_mult)
  then have x52: "\<bar>x * 100\<bar> \<le> 2 powi 52"
    using B52 by linarith
  from roundDouble_error[OF x52] obtain v
    where v: "roundDouble (x * 100) = Finite v" and "\<bar>v - x * 100\<bar> \<le> 2 powi (52 - 54)"
    by auto
  then have verr: "\<bar>v - x * 100\<bar> \<le> 1 / 4"
    by simp
  define n where "n = \<lfloor>v + 1 / 2\<rfloor>"
  have vB: "\<bar>v\<bar> \<le> B + 1 / 4"
    using verr xB by linarith
  have "v + 1 / 2 < of_int (N + 1)"
    using vB unfolding B_def by simp
  then have "n < N + 1"
    unfolding n_def by (simp only: floor_less_iff)
  moreover have "of_int (- N) \<le> v + 1 / 2"
    using vB unfolding B_def by simp
  then have "- N \<le> n"
    unfolding n_def by (simp only: le_floor_iff)
  ultimately have "\<bar>n\<bar> \<le> N"
    by linarith
  then have "rat_of_int \<bar>n\<bar> \<le> of_int N"
    by (simp only: of_int_le_iff)
  then have nB: "\<bar>rat_of_int n\<bar> \<le> B"
    by (simp add: B_def)
  then have "\<bar>of_int n / 100 :: rat\<bar> \<le> 2 powi 45"
    unfolding B45[symmetric] by simp
  from roundDouble_error[OF this] obtain y
    where y: "roundDouble (of_int n / 100) = Finite y"
      and "\<bar>y - of_int n / 100\<bar> \<le> 2 powi (45 - 54)"
    by auto
  then have yerr: "\<bar>y - of_int n / 100\<bar> \<le> 1 / 512"
    by simp
  have yerr100: "\<bar>y * 100 - of_int n\<bar> \<le> 100 / 512"
  proof -
    have "y * 100 - of_int n = (y - of_int n / 100) * 100" by simp
    then have "\<bar>y * 100 - of_int n\<bar> = \<bar>y - of_int n / 100\<bar> * \<bar>100\<bar>"
      by (simp only: abs_mult)
    with yerr show ?thesis by simp
  qed
  then have "\<bar>y * 100\<bar> \<le> B + 1"
    using nB by linarith
  then have y52: "\<bar>y * 100\<bar> \<le> 2 powi 52"
    using B52 by linarith
  from roundDouble_error[OF y52] obtain w
    where w: "roundDouble (y * 100) = Finite w" and "\<bar>w - y * 100\<bar> \<le> 2 powi (52 - 54)"
    by auto
  then have werr: "\<bar>w - y * 100\<bar> \<le> 1 / 4"
    by simp
  have "\<bar>w - of_int n\<bar> < 1 / 2"
    using werr yerr100 by linarith
  then have "of_int n \<le> w + 1 / 2" "w + 1 / 2 < of_int n + 1"
    by linarith+
  then have refloor: "\<lfloor>w + 1 / 2\<rfloor> = n"
    by (intro floor_unique)
  have once: "roundToTwoDecimalPlaces (Finite x) = Finite y"
    using roundToTwoDecimalPlaces_Finite[OF v] y by (simp add: n_def)
  have "roundToTwoDecimalPlaces (Finite y) = Finite y"
    using roundToTwoDecimalPlaces_Finite[OF w] y by (simp add: refloor)
  with once show "roundToTwoDecimalPlaces (roundToTwoDecimalPlaces (Finite x))
      = roundToTwoDecimalPlaces (Finite x)"
    by simp
qed

theorem roundToTwoDecimalPlaces_idempotent_up_to_2_45_witness:
  "\<bar>8005 / 8 :: rat\<bar> \<le> 2 ^ 45
   \<and> roundToTwoDecimalPlaces (Finite (8005 / 8)) = roundDouble (100063 / 100)
   \<and> roundToTwoDecimalPlaces (roundToTwoDecimalPlaces (Finite (8005 / 8)))
       = roundDouble (100063 / 100)"
proof -
  have small: "\<bar>8005 / 8 :: rat\<bar> \<le> 2 ^ 45"
    by simp
  have once: "roundToTwoDecimalPlaces (Finite (8005 / 8)) = roundDouble (100063 / 100)"
    by (simp add: number_eval module_eval)
  from roundToTwoDecimalPlaces_idempotent_up_to_2_45[of "8005 / 8"] once small show ?thesis
    by simp
qed

text \<open>
  C10, beyond that bound: the number 35184565986771.266 is rounded to 35184565986771.27,
  and that number is rounded to 35184565986771.28.  From \<open>2 ^ 45\<close> on the numbers are
  \<open>2 ^ - 7\<close> apart, the product with 100 lies between \<open>2 ^ 51\<close> and \<open>2 ^ 52\<close>, where the
  numbers are one half apart, and a product rounded to an integer plus one half goes up.
\<close>

theorem roundToTwoDecimalPlaces_not_idempotent_counterexample:
  "roundDouble (35184565986771266 / 1000) = Finite (2251812223153361 / 64)
   \<and> roundToTwoDecimalPlaces (Finite (2251812223153361 / 64))
       = roundDouble (3518456598677127 / 100)
   \<and> roundToTwoDecimalPlaces (roundToTwoDecimalPlaces (Finite (2251812223153361 / 64)))
       = roundDouble (3518456598677128 / 100)
   \<and> roundDouble (3518456598677127 / 100) \<noteq> roundDouble (3518456598677128 / 100)"
  by (simp add: number_eval module_eval)

end
